theory Spec2Isabelle
  imports Complex_Main "HOL-Library.Sublist"
begin

section \<open>Python strings\<close>

text \<open>
  A Python \<open>str\<close> is modelled as a \<^typ>\<open>string\<close>: one \<^typ>\<open>char\<close> per code point, for
  texts whose code points lie below 256. On that range \<open>str.isspace\<close>, \<open>str.lower\<close>,
  slicing and \<open>len\<close> are the functions below. Python integers are \<^typ>\<open>int\<close>, Python
  floats are modelled by \<^typ>\<open>real\<close> (the decimal constants of the source are taken at
  their exact decimal value).
\<close>

definition isspace :: "char \<Rightarrow> bool" where
  "isspace c = (of_char c \<in> {9, 10, 11, 12, 13, 28, 29, 30, 31, 32, 133, 160 :: nat})"

definition strip :: "string \<Rightarrow> string" where
  "strip s = rev (dropWhile isspace (rev (dropWhile isspace s)))"

definition lower_char :: "char \<Rightarrow> char" where
  "lower_char c =
     (let n = of_char c :: nat
      in if (65 \<le> n \<and> n \<le> 90) \<or> (192 \<le> n \<and> n \<le> 222 \<and> n \<noteq> 215)
         then char_of (n + 32) else c)"

definition lower :: "string \<Rightarrow> string" where
  "lower s = map lower_char s"

text \<open>\<open>xs[i:j]\<close>: a negative index counts from the end, and both indices are clipped.\<close>

definition py_index :: "int \<Rightarrow> int \<Rightarrow> nat" where
  "py_index n i = (if i < 0 then nat (max (i + n) 0) else nat (min i n))"

definition py_slice :: "'a list \<Rightarrow> int \<Rightarrow> int \<Rightarrow> 'a list" where
  "py_slice xs i j =
     (let n = int (length xs); lo = py_index n i; hi = py_index n j
      in take (hi - lo) (drop lo xs))"

text \<open>\<open>s.rfind(c)\<close> for a one-character \<open>c\<close>: the last index of \<open>c\<close>, or \<open>-1\<close>.\<close>

definition rfind :: "string \<Rightarrow> char \<Rightarrow> int" where
  "rfind s c =
     (if c \<in> set s then int (length s) - 1 - int (length (takeWhile (\<lambda>x. x \<noteq> c) (rev s)))
      else - 1)"

text \<open>\<open>sep.join(xs)\<close> and \<open>s.rstrip()\<close>, used to state properties of the extracted text.\<close>

fun py_join :: "string \<Rightarrow> string list \<Rightarrow> string" where
  "py_join sep [] = []"
| "py_join sep [x] = x"
| "py_join sep (x # y # ys) = x @ sep @ py_join sep (y # ys)"

definition rstrip :: "string \<Rightarrow> string" where
  "rstrip s = rev (dropWhile isspace (rev s))"

section \<open>Data model (pdf\_parser.py)\<close>

record DocumentMetadata =
  title :: string
  author :: string
  subject :: string
  creator :: string
  producer :: string
  creation_date :: string
  modification_date :: string
  page_count :: int
  file_size :: int

record FormField =
  field_name :: string
  field_type :: string
  field_value :: string
  coordinates :: "real \<times> real \<times> real \<times> real"
  page_number :: int

text \<open>The fields of \<open>TableData\<close> that share a name with \<open>FormField\<close> carry a prefix.\<close>

record TableData =
  table_text :: string
  table_data :: "string list list"
  table_coordinates :: "real \<times> real \<times> real \<times> real"
  table_page_number :: int

record ImageInfo =
  image_page_number :: int
  image_index :: int
  width :: int
  height :: int
  colorspace :: string
  xref :: int

record ParsedDocument =
  metadata :: DocumentMetadata
  full_text :: string
  pages_text :: "string list"
  form_fields :: "FormField list"
  tables :: "TableData list"
  images_info :: "ImageInfo list"
  document_type :: string
  confidence_score :: real

text \<open>
  An opened PDF, as far as \<open>_extract_text\<close> reads it: the pages in order, each with the
  text that \<open>page.get_text()\<close> returns.
\<close>

record Page =
  get_text :: string

type_synonym Document = "Page list"

section \<open>PDFParser\<close>

subsection \<open>\<open>_extract_text\<close>\<close>

definition extract_text :: "Document \<Rightarrow> string \<times> string list" where
  "extract_text doc =
     (let (full_text, pages_text) =
        fold (\<lambda>page (full_text, pages_text).
                let page_text = get_text page
                in (full_text @ page_text @ [CHR 0x0A], pages_text @ [page_text]))
             doc ([], [])
      in (strip full_text, pages_text))"

subsection \<open>\<open>_classify_document\<close>\<close>

text \<open>The dictionary \<open>form_patterns\<close>, in insertion order, which is its iteration order.\<close>

definition form_patterns :: "(string \<times> string list) list" where
  "form_patterns =
     [(''I-130'', [''i-130'', ''petition for alien relative'']),
      (''I-485'', [''i-485'', ''application to register permanent residence'']),
      (''I-765'', [''i-765'', ''application for employment authorization'']),
      (''I-821D'', [''i-821d'', ''daca'', ''deferred action'']),
      (''I-90'', [''i-90'', ''application to replace permanent resident card'']),
      (''N-400'', [''n-400'', ''application for naturalization'']),
      (''I-864'', [''i-864'', ''affidavit of support'']),
      (''I-693'', [''i-693'', ''report of medical examination'']),
      (''G-1145'', [''g-1145'', ''e-notification'']),
      (''I-131'', [''i-131'', ''application for travel document''])]"

text \<open>\<open>pattern in text_lower\<close> is \<^const>\<open>sublist\<close>: a contiguous occurrence.\<close>

text \<open>\<open>any(pattern in text_lower for pattern in patterns)\<close>\<close>

definition any_pattern_in :: "string list \<Rightarrow> string \<Rightarrow> bool" where
  "any_pattern_in patterns text_lower = list_ex (\<lambda>pattern. sublist pattern text_lower) patterns"

text \<open>The \<open>for\<close> loop over \<open>form_patterns.items()\<close>, leaving at the first match.\<close>

fun classify_forms :: "(string \<times> string list) list \<Rightarrow> string \<Rightarrow> string option" where
  "classify_forms [] text_lower = None"
| "classify_forms ((form_type, patterns) # rest) text_lower =
     (if any_pattern_in patterns text_lower then Some form_type
      else classify_forms rest text_lower)"

definition classify_document :: "string \<Rightarrow> string" where
  "classify_document text =
     (let text_lower = lower text
      in case classify_forms form_patterns text_lower of
           Some form_type \<Rightarrow> form_type
         | None \<Rightarrow>
             if sublist ''passport'' text_lower then ''Passport''
             else if sublist ''birth certificate'' text_lower then ''Birth Certificate''
             else if sublist ''marriage certificate'' text_lower then ''Marriage Certificate''
             else if sublist ''divorce decree'' text_lower then ''Divorce Decree''
             else if sublist ''employment'' text_lower \<and> sublist ''authorization'' text_lower
               then ''Employment Authorization''
             else ''Unknown Document'')"

subsection \<open>\<open>_calculate_confidence\<close>\<close>

text \<open>
  The parameters \<open>form_fields\<close> and \<open>tables\<close> are written \<open>flds\<close> and \<open>tbls\<close>, the
  source's names being the selectors of \<open>ParsedDocument\<close> here.
\<close>

definition calculate_confidence :: "string \<Rightarrow> FormField list \<Rightarrow> TableData list \<Rightarrow> real" where
  "calculate_confidence text flds tbls =
     (let score = 0.0;
          score = (if length (strip text) > 100 then score + 0.3 else score);
          score = (if flds \<noteq> [] then score + 0.2 else score);
          score = (if tbls \<noteq> [] then score + 0.2 else score);
          score = (if classify_document text \<noteq> ''Unknown Document'' then score + 0.3 else score)
      in min score 1.0)"

text \<open>The additive model in the words of the specification.\<close>

definition spec_confidence :: "string \<Rightarrow> FormField list \<Rightarrow> TableData list \<Rightarrow> real" where
  "spec_confidence text flds tbls =
     min 1 ((if length (strip text) > 100 then 3 / 10 else 0)
          + (if flds \<noteq> [] then 2 / 10 else 0)
          + (if tbls \<noteq> [] then 2 / 10 else 0)
          + (if classify_document text \<noteq> ''Unknown Document'' then 3 / 10 else 0))"

subsection \<open>\<open>extract_text_chunks\<close>\<close>

text \<open>
  One pass through the body of the \<open>while\<close> loop, up to the values of \<open>chunk\<close> and
  \<open>end\<close> that reach \<open>chunks.append(chunk.strip())\<close>.
\<close>

definition chunk_window :: "string \<Rightarrow> int \<Rightarrow> int \<Rightarrow> string \<times> int" where
  "chunk_window text chunk_size start =
     (let end = start + chunk_size;
          chunk = py_slice text start end
      in if end < int (length text) then
           (let last_period = rfind chunk CHR ''.'';
                last_newline = rfind chunk CHR 0x0A;
                break_point = max last_period last_newline
            in if break_point > start + chunk_size div 2
               then (py_slice text start (start + break_point + 1), start + break_point + 1)
               else (chunk, end))
         else (chunk, end))"

text \<open>The loop; \<open>None\<close> is the run that never leaves it.\<close>

partial_function (option) chunk_loop ::
  "string \<Rightarrow> int \<Rightarrow> int \<Rightarrow> int \<Rightarrow> string list \<Rightarrow> string list option" where
  "chunk_loop text chunk_size overlap start chunks =
     (if start < int (length text) then
        (case chunk_window text chunk_size start of
           (chunk, end) \<Rightarrow>
             chunk_loop text chunk_size overlap (end - overlap) (chunks @ [strip chunk]))
      else Some chunks)"

declare chunk_loop.simps [code]

definition extract_text_chunks :: "string \<Rightarrow> int \<Rightarrow> int \<Rightarrow> string list option" where
  "extract_text_chunks text chunk_size overlap = chunk_loop text chunk_size overlap 0 []"

section \<open>LLMService (llm\_service.py)\<close>

datatype LLMProvider = OPENAI | ANTHROPIC | LOCAL

record LLMResponse =
  content :: string
  provider :: LLMProvider
  model :: string
  tokens_used :: int
  processing_time :: real
  confidence :: real

record LLMService =
  service_provider :: LLMProvider

text \<open>
  Exceptions that leave the service: the one a provider call raised (logged and raised
  again), the \<open>ValueError\<close> of an unsupported provider or of \<open>json.loads\<close>, the
  \<open>TypeError\<close> of \<open>len\<close>, and the \<open>RecursionError\<close> of \<open>json.loads\<close>.
\<close>

datatype error =
  ProviderCallFailed string
| ValueError string
| TypeError string
| RecursionError string

text \<open>
  The remote completion APIs are outside the repository. A backend answers a call, given
  the calls issued before it, with an exception message or with the completion text and
  the tokens used. The log of issued calls is the state the service threads through.
\<close>

type_synonym call = "LLMProvider \<times> string \<times> int"

type_synonym backend = "call list \<Rightarrow> call \<Rightarrow> string + (string \<times> int)"

text \<open>The values \<open>json.loads\<close> produces; an object keeps its items in order.\<close>

datatype json =
  JNull
| JBool bool
| JInt int
| JFloat real
| JString string
| JArray "json list"
| JObject "(string \<times> json) list"



definition call_openai ::
  "backend \<Rightarrow> string \<Rightarrow> int \<Rightarrow> call list \<Rightarrow> (error + LLMResponse) \<times> call list" where
  "call_openai remote prompt max_tokens calls =
     (case remote calls (OPENAI, prompt, max_tokens) of
        Inl e \<Rightarrow> Inl (ProviderCallFailed e)
      | Inr (text, total_tokens) \<Rightarrow>
          Inr \<lparr>content = text, provider = OPENAI, model = ''gpt-4'',
               tokens_used = total_tokens, processing_time = 0.0, confidence = 0.9\<rparr>,
      calls @ [(OPENAI, prompt, max_tokens)])"

definition call_anthropic ::
  "backend \<Rightarrow> string \<Rightarrow> int \<Rightarrow> call list \<Rightarrow> (error + LLMResponse) \<times> call list" where
  "call_anthropic remote prompt max_tokens calls =
     (case remote calls (ANTHROPIC, prompt, max_tokens) of
        Inl e \<Rightarrow> Inl (ProviderCallFailed e)
      | Inr (text, total_tokens) \<Rightarrow>
          Inr \<lparr>content = text, provider = ANTHROPIC, model = ''claude-3-sonnet-20240229'',
               tokens_used = total_tokens, processing_time = 0.0, confidence = 0.9\<rparr>,
      calls @ [(ANTHROPIC, prompt, max_tokens)])"

definition call_llm ::
  "LLMService \<Rightarrow> backend \<Rightarrow> string \<Rightarrow> int \<Rightarrow> call list \<Rightarrow> (error + LLMResponse) \<times> call list" where
  "call_llm self remote prompt max_tokens calls =
     (if service_provider self = OPENAI then call_openai remote prompt max_tokens calls
      else if service_provider self = ANTHROPIC then call_anthropic remote prompt max_tokens calls
      else (Inl (ValueError ''Unsupported provider: LLMProvider.LOCAL''), calls))"

subsection \<open>\<open>_extract_key_information\<close> and \<open>generate_faq\<close>\<close>





subsection \<open>\<open>_analyze_form_fields\<close>\<close>

text \<open>The dictionary appended for each field, with its four fixed keys.\<close>

record FieldGuidance =
  guidance_field_name :: string
  guidance_field_type :: string
  guidance :: string
  guidance_page_number :: int

definition form_field_prompt :: "ParsedDocument \<Rightarrow> FormField \<Rightarrow> string" where
  \<open>form_field_prompt parsed_doc field =
     ''\<newline>'' @
     ''            Analyze this form field from an immigration document:\<newline>'' @
     ''            \<newline>'' @
     ''            Field Name: '' @
     field_name field @
     ''\<newline>'' @
     ''            Field Type: '' @
     field_type field @
     ''\<newline>'' @
     ''            Current Value: '' @
     field_value field @
     ''\<newline>'' @
     ''            Document Type: '' @
     document_type parsed_doc @
     ''\<newline>'' @
     ''            \<newline>'' @
     ''            Provide guidance on:\<newline>'' @
     ''            1. What information should be entered\<newline>'' @
     ''            2. Format requirements\<newline>'' @
     ''            3. Common mistakes to avoid\<newline>'' @
     ''            4. Required supporting documents\<newline>'' @
     ''            \<newline>'' @
     ''            Keep response concise and practical.\<newline>'' @
     ''            ''\<close>

fun analyze_fields_loop ::
  "LLMService \<Rightarrow> backend \<Rightarrow> ParsedDocument \<Rightarrow> FormField list \<Rightarrow> FieldGuidance list
     \<Rightarrow> call list \<Rightarrow> (error + FieldGuidance list) \<times> call list" where
  "analyze_fields_loop self remote parsed_doc [] form_analysis calls = (Inr form_analysis, calls)"
| "analyze_fields_loop self remote parsed_doc (field # rest) form_analysis calls =
     (case call_llm self remote (form_field_prompt parsed_doc field) 300 calls of
        (Inl e, calls') \<Rightarrow> (Inl e, calls')
      | (Inr response, calls') \<Rightarrow>
          analyze_fields_loop self remote parsed_doc rest
            (form_analysis @
               [\<lparr>guidance_field_name = field_name field,
                 guidance_field_type = field_type field,
                 guidance = content response,
                 guidance_page_number = page_number field\<rparr>])
            calls')"

definition analyze_form_fields ::
  "LLMService \<Rightarrow> backend \<Rightarrow> ParsedDocument \<Rightarrow> call list
     \<Rightarrow> (error + FieldGuidance list) \<times> call list" where
  "analyze_form_fields self remote parsed_doc calls =
     (if form_fields parsed_doc = [] then (Inr [], calls)
      else analyze_fields_loop self remote parsed_doc (form_fields parsed_doc) [] calls)"

subsection \<open>\<open>_calculate_analysis_confidence\<close>\<close>

text \<open>Truth value and \<open>len\<close> of a decoded JSON value, as Python defines them.\<close>

fun py_bool :: "json \<Rightarrow> bool" where
  "py_bool JNull = False"
| "py_bool (JBool b) = b"
| "py_bool (JInt i) = (i \<noteq> 0)"
| "py_bool (JFloat x) = (x \<noteq> 0)"
| "py_bool (JString s) = (s \<noteq> [])"
| "py_bool (JArray xs) = (xs \<noteq> [])"
| "py_bool (JObject kvs) = (kvs \<noteq> [])"

fun py_len :: "json \<Rightarrow> error + nat" where
  "py_len (JString s) = Inr (length s)"
| "py_len (JArray xs) = Inr (length xs)"
| "py_len (JObject kvs) = Inr (length kvs)"
| "py_len v = Inl (TypeError ''object has no len()'')"

definition calculate_analysis_confidence ::
  "ParsedDocument \<Rightarrow> string \<Rightarrow> json \<Rightarrow> error + real" where
  "calculate_analysis_confidence parsed_doc summary key_info =
     (let score = confidence_score parsed_doc * 0.4;
          score = (if length summary > 200 then score + 0.2 else score)
      in case (if py_bool key_info then py_len key_info else Inr 0) of
           Inl e \<Rightarrow> Inl e
         | Inr n \<Rightarrow>
             (let score = (if py_bool key_info \<and> n > 3 then score + 0.2 else score);
                  score = (if form_fields parsed_doc \<noteq> [] then score + 0.1 else score);
                  score = (if document_type parsed_doc \<noteq> ''Unknown Document''
                           then score + 0.1 else score)
              in Inr (min score 1.0)))"

text \<open>The formula in the words of the specification.\<close>

definition spec_analysis_confidence ::
  "real \<Rightarrow> nat \<Rightarrow> nat \<Rightarrow> bool \<Rightarrow> bool \<Rightarrow> real" where
  "spec_analysis_confidence doc_confidence summary_length key_info_entries has_fields classified =
     min 1 (4 / 10 * doc_confidence
          + (if summary_length > 200 then 2 / 10 else 0)
          + (if key_info_entries > 3 then 2 / 10 else 0)
          + (if has_fields then 1 / 10 else 0)
          + (if classified then 1 / 10 else 0))"

section \<open>Sample inputs\<close>

text \<open>
  A text of 2500 characters: 1500 letters, a period, 999 letters. With the default
  \<open>chunk_size = 1000\<close> and \<open>overlap = 200\<close> its second window is \<open>[800, 1800)\<close>, and the
  period lies at offset 700 of that window.
\<close>

definition sample_text :: string where
  "sample_text = replicate 1500 CHR ''a'' @ CHR ''.'' # replicate 999 CHR ''a''"

definition sample_long_text :: string where
  "sample_long_text = ''Form I-130'' @ replicate 100 CHR ''x''"

definition sample_metadata :: DocumentMetadata where
  "sample_metadata =
     \<lparr>title = ''Petition'', author = [], subject = [], creator = [], producer = [],
      creation_date = [], modification_date = [], page_count = 2, file_size = 0\<rparr>"

definition sample_fields :: "FormField list" where
  "sample_fields =
     [\<lparr>field_name = ''family_name'', field_type = ''Text'', field_value = [],
       coordinates = (0, 0, 10, 10), page_number = 1\<rparr>,
      \<lparr>field_name = ''field_1'', field_type = ''CheckBox'', field_value = ''Yes'',
       coordinates = (0, 20, 10, 30), page_number = 2\<rparr>]"

definition sample_table :: TableData where
  "sample_table =
     \<lparr>table_text = ''a'', table_data = [[''a''], [''b'']], table_coordinates = (0, 0, 0, 0),
      table_page_number = 1\<rparr>"

definition sample_doc :: ParsedDocument where
  "sample_doc =
     \<lparr>metadata = sample_metadata, full_text = ''Form I-130'', pages_text = [''Form I-130''],
      form_fields = sample_fields, tables = [], images_info = [],
      document_type = ''I-130'', confidence_score = 0.5\<rparr>"

definition sample_service :: LLMService where
  "sample_service = \<lparr>service_provider = OPENAI\<rparr>"

text \<open>A backend whose every completion is the same text, which is not JSON.\<close>

definition sample_remote :: backend where
  "sample_remote history c = Inr (''not json'', 7)"




definition sample_guidance :: "FieldGuidance list" where
  "sample_guidance =
     [\<lparr>guidance_field_name = ''family_name'', guidance_field_type = ''Text'',
       guidance = ''not json'', guidance_page_number = 1\<rparr>,
      \<lparr>guidance_field_name = ''field_1'', guidance_field_type = ''CheckBox'',
       guidance = ''not json'', guidance_page_number = 2\<rparr>]"

text \<open>What a guidance record and a form field have in common: name, type, page number.\<close>

definition guidance_key :: "FieldGuidance \<Rightarrow> string \<times> string \<times> int" where
  "guidance_key g = (guidance_field_name g, guidance_field_type g, guidance_page_number g)"

definition field_key :: "FormField \<Rightarrow> string \<times> string \<times> int" where
  "field_key f = (field_name f, field_type f, page_number f)"

text \<open>The labels of the generic checks, with the unknown sentinel.\<close>

definition generic_labels :: "string set" where
  "generic_labels = {''Passport'', ''Birth Certificate'', ''Marriage Certificate'',
     ''Divorce Decree'', ''Employment Authorization'', ''Unknown Document''}"

section \<open>Strings and slices\<close>

lemma rfind_less: "rfind s c < int (length s)"
  by (simp add: rfind_def)

lemma rfind_absent: "c \<notin> set s \<Longrightarrow> rfind s c = - 1"
  by (simp add: rfind_def)

lemma rfind_last_occurrence:
  assumes "c \<notin> set ys"
  shows "rfind (xs @ c # ys) c = int (length xs)"
proof -
  have "takeWhile (\<lambda>x. x \<noteq> c) (rev ys @ c # rev xs) = takeWhile (\<lambda>x. x \<noteq> c) (rev ys)"
    by (rule takeWhile_tail) simp
  also have "\<dots> = rev ys"
    using assms by auto
  finally show ?thesis by (simp add: rfind_def)
qed

lemma length_py_slice:
  "i < 0 \<or> 0 \<le> j \<Longrightarrow> int (length (py_slice xs i j)) \<le> max 0 (j - i)"
  by (auto simp add: py_slice_def py_index_def Let_def)

lemma py_slice_nonneg:
  "0 \<le> i \<Longrightarrow> 0 \<le> j \<Longrightarrow> py_slice xs i j = take (nat j - nat i) (drop (nat i) xs)"
  by (auto simp add: py_slice_def py_index_def Let_def min_def)

lemma strip_id:
  assumes "s \<noteq> []" and "\<not> isspace (hd s)" and "\<not> isspace (last s)"
  shows "strip s = s"
proof -
  from assms(1,2) have a: "dropWhile isspace s = s" by (cases s) auto
  from assms(1,3) have "dropWhile isspace (rev s) = rev s"
    by (cases "rev s") (auto simp add: last_rev [symmetric] simp del: last_rev)
  with a show ?thesis by (simp add: strip_def)
qed

lemma strip_snoc_newline: "strip (s @ [CHR 0x0A]) = strip s"
proof (cases "\<forall>c\<in>set s. isspace c")
  case True
  then have "\<forall>c\<in>set (s @ [CHR 0x0A]). isspace c"
    by (simp add: isspace_def)
  then have a: "dropWhile isspace (s @ [CHR 0x0A]) = []"
    by (simp only: dropWhile_eq_Nil_conv)
  from True have b: "dropWhile isspace s = []"
    by (simp only: dropWhile_eq_Nil_conv)
  show ?thesis by (simp only: strip_def a b)
next
  case False
  then have "dropWhile isspace (s @ [CHR 0x0A]) = dropWhile isspace s @ [CHR 0x0A]"
    by (auto simp add: dropWhile_append)
  then show ?thesis by (simp add: strip_def isspace_def)
qed

lemma sublist_lower:
  assumes "sublist p t"
  shows "sublist (lower p) (lower t)"
proof -
  from assms obtain ps ss where "t = ps @ p @ ss" by (auto simp add: sublist_def)
  then have "lower t = lower ps @ lower p @ lower ss" by (simp add: lower_def)
  then show ?thesis by simp
qed

section \<open>The chunker\<close>

subsection \<open>One window\<close>

lemma break_point_less:
  assumes "st < 0 \<or> 0 \<le> st + cs"
  shows "max (rfind (py_slice t st (st + cs)) CHR ''.'')
             (rfind (py_slice t st (st + cs)) CHR 0x0A) < max 0 cs"
proof -
  have "rfind (py_slice t st (st + cs)) c < max 0 cs" for c
    using rfind_less [of "py_slice t st (st + cs)" c] length_py_slice [OF assms, of t] by simp
  then show ?thesis by simp
qed

lemma chunk_window_end_le:
  assumes "st < 0 \<or> 0 \<le> st + cs"
  shows "snd (chunk_window t cs st) \<le> max st (st + cs)"
  using break_point_less [OF assms, of t] by (auto simp add: chunk_window_def Let_def)

lemma chunk_window_fst: "fst (chunk_window t cs st) = py_slice t st (snd (chunk_window t cs st))"
  by (simp add: chunk_window_def Let_def)

lemma chunk_window_progress:
  assumes "0 \<le> st" and "ov < cs" and "ov \<le> cs div 2 + 1"
  shows "st + ov < snd (chunk_window t cs st)"
  using assms by (auto simp add: chunk_window_def Let_def)

text \<open>
  The break point is an index into the window, and the test compares it with
  \<open>start + chunk_size // 2\<close>, an index into the text. Once \<open>start\<close> has reached
  \<open>chunk_size - 1 - chunk_size // 2\<close> no index of the window passes the test, and the
  window keeps its full size whatever it contains.
\<close>

lemma chunk_window_keeps_full_window:
  assumes "0 \<le> st" and "0 < cs" and "cs - 1 \<le> st + cs div 2"
  shows "chunk_window t cs st = (py_slice t st (st + cs), st + cs)"
proof -
  from assms(1,2) have "st < 0 \<or> 0 \<le> st + cs" by arith
  from break_point_less [OF this, of t] assms show ?thesis
    by (auto simp add: chunk_window_def Let_def)
qed

subsection \<open>Runs that never return\<close>

text \<open>
  With \<open>0 \<le> chunk_size \<le> overlap\<close> the next start is never beyond the current one, so
  on a non-empty text the loop condition stays true forever.
\<close>

lemma chunk_loop_diverges:
  assumes "t \<noteq> []" and "0 \<le> cs" and "cs \<le> ov" and "st \<le> 0"
  shows "chunk_loop t cs ov st acc = None"
proof (rule ccontr)
  assume "chunk_loop t cs ov st acc \<noteq> None"
  then obtain y where y: "chunk_loop t cs ov st acc = Some y" by auto
  have "t \<noteq> [] \<longrightarrow> 0 \<le> cs \<longrightarrow> cs \<le> ov \<longrightarrow> st \<le> 0 \<longrightarrow> False"
  proof (rule chunk_loop.raw_induct
      [where P = "\<lambda>t cs ov st acc y. t \<noteq> [] \<longrightarrow> 0 \<le> cs \<longrightarrow> cs \<le> ov \<longrightarrow> st \<le> 0 \<longrightarrow> False",
        OF _ y])
    fix loop :: "string \<Rightarrow> int \<Rightarrow> int \<Rightarrow> int \<Rightarrow> string list \<Rightarrow> string list option"
      and t cs ov st acc y
    assume IH: "\<And>t cs ov st acc y. loop t cs ov st acc = Some y \<Longrightarrow>
        t \<noteq> [] \<longrightarrow> 0 \<le> cs \<longrightarrow> cs \<le> ov \<longrightarrow> st \<le> 0 \<longrightarrow> False"
    assume body: "(if st < int (length t)
        then case chunk_window t cs st of
          (chunk, e) \<Rightarrow> loop t cs ov (e - ov) (acc @ [strip chunk])
        else Some acc) = Some y"
    show "t \<noteq> [] \<longrightarrow> 0 \<le> cs \<longrightarrow> cs \<le> ov \<longrightarrow> st \<le> 0 \<longrightarrow> False"
    proof (intro impI)
      assume t: "t \<noteq> []" and c0: "0 \<le> cs" and c: "cs \<le> ov" and s: "st \<le> 0"
      obtain chunk e where w: "chunk_window t cs st = (chunk, e)"
        by (cases "chunk_window t cs st")
      from c0 s have "st < 0 \<or> 0 \<le> st + cs" by arith
      from chunk_window_end_le [OF this, of t] w c0 have e: "e \<le> st + cs"
        by simp
      from t s have "st < int (length t)" by (cases t) auto
      with body w have "loop t cs ov (e - ov) (acc @ [strip chunk]) = Some y"
        by simp
      from IH [OF this] t c0 c s e show False by simp
    qed
  qed
  with assms show False by blast
qed

lemma chunk_loop_empty: "chunk_loop [] cs ov 0 acc = Some acc"
  by (subst chunk_loop.simps) simp

text \<open>
  C1. The claim: whenever \<open>overlap \<ge> chunk_size\<close>, \<open>extract_text_chunks\<close> fails with an
  \<open>InvalidChunkConfig\<close> error instead of looping indefinitely. The source has no such
  check and no such error: on the text \<open>a\<close> with \<open>chunk_size = overlap = 1\<close> the loop
  never ends, and on the empty text the same configuration returns the empty list.
\<close>

theorem C1_overlap_not_rejected:
  "extract_text_chunks ''a'' 1 1 = None \<and> extract_text_chunks [] 1 1 = Some []"
  by (simp add: extract_text_chunks_def chunk_loop_diverges chunk_loop_empty)

text \<open>
  C2. The claim: for every configuration with \<open>0 \<le> overlap < chunk_size\<close> and every text,
  \<open>extract_text_chunks\<close> terminates with a finite list, the empty list for the empty
  text. The empty text does give the empty list. But on \<open>aaa.aaa\<close> with
  \<open>chunk_size = 5\<close> and \<open>overlap = 4\<close> the first window is cut after the period, at
  \<open>end = 4\<close>, so the next start is \<open>4 - 4 = 0\<close> again: the loop never ends.
\<close>

theorem C2_loop_with_valid_overlap:
  "extract_text_chunks ''aaa.aaa'' 5 4 = None \<and> extract_text_chunks [] 5 4 = Some []"
proof
  show "extract_text_chunks ''aaa.aaa'' 5 4 = None"
  proof (rule ccontr)
    assume "extract_text_chunks ''aaa.aaa'' 5 4 \<noteq> None"
    then obtain y where y: "chunk_loop ''aaa.aaa'' 5 4 0 [] = Some y"
      by (auto simp add: extract_text_chunks_def)
    have w: "chunk_window ''aaa.aaa'' 5 0 = (''aaa.'', 4)"
      by code_simp
    have "''aaa.aaa'' = ''aaa.aaa'' \<longrightarrow> (5::int) = 5 \<longrightarrow> (4::int) = 4 \<longrightarrow> (0::int) = 0 \<longrightarrow> False"
    proof (rule chunk_loop.raw_induct
        [where P = "\<lambda>t cs ov st acc y. t = ''aaa.aaa'' \<longrightarrow> cs = 5 \<longrightarrow> ov = 4 \<longrightarrow> st = 0 \<longrightarrow> False",
          OF _ y])
      fix loop :: "string \<Rightarrow> int \<Rightarrow> int \<Rightarrow> int \<Rightarrow> string list \<Rightarrow> string list option"
        and t cs ov st acc y
      assume IH: "\<And>t cs ov st acc y. loop t cs ov st acc = Some y \<Longrightarrow>
          t = ''aaa.aaa'' \<longrightarrow> cs = 5 \<longrightarrow> ov = 4 \<longrightarrow> st = 0 \<longrightarrow> False"
      assume body: "(if st < int (length t)
          then case chunk_window t cs st of
            (chunk, e) \<Rightarrow> loop t cs ov (e - ov) (acc @ [strip chunk])
          else Some acc) = Some y"
      show "t = ''aaa.aaa'' \<longrightarrow> cs = 5 \<longrightarrow> ov = 4 \<longrightarrow> st = 0 \<longrightarrow> False"
      proof (intro impI)
        assume h: "t = ''aaa.aaa''" "cs = 5" "ov = 4" "st = 0"
        with body w have "loop t cs ov 0 (acc @ [strip ''aaa.'']) = Some y"
          by simp
        from IH [OF this] h show False by simp
      qed
    qed
    then show False by simp
  qed
  show "extract_text_chunks [] 5 4 = Some []"
    by (simp add: extract_text_chunks_def chunk_loop_empty)
qed

subsection \<open>The default configuration on a text of 2500 characters\<close>

lemma length_sample_text: "length sample_text = 2500"
  by (simp add: sample_text_def)

lemma sample_window_1: "chunk_window sample_text 1000 0 = (replicate 1000 CHR ''a'', 1000)"
proof -
  have "py_slice sample_text 0 1000 = replicate 1000 CHR ''a''"
    by (simp add: py_slice_nonneg sample_text_def)
  then show ?thesis
    by (simp add: chunk_window_def length_sample_text rfind_absent)
qed

lemma sample_slice_2:
  "py_slice sample_text 800 1800 = replicate 700 CHR ''a'' @ CHR ''.'' # replicate 299 CHR ''a''"
  by (simp add: py_slice_nonneg sample_text_def)

lemma sample_window_2:
  "chunk_window sample_text 1000 800 =
     (replicate 700 CHR ''a'' @ CHR ''.'' # replicate 299 CHR ''a'', 1800)"
  using chunk_window_keeps_full_window [of 800 1000 sample_text]
  by (simp add: sample_slice_2)

lemma sample_window_3: "chunk_window sample_text 1000 1600 = (replicate 900 CHR ''a'', 2600)"
proof -
  have "py_slice sample_text 1600 2600 = replicate 900 CHR ''a''"
    by (simp add: py_slice_nonneg sample_text_def)
  then show ?thesis
    by (simp add: chunk_window_def length_sample_text)
qed

lemma sample_window_4: "chunk_window sample_text 1000 2400 = (replicate 100 CHR ''a'', 3400)"
proof -
  have "py_slice sample_text 2400 3400 = replicate 100 CHR ''a''"
    by (simp add: py_slice_nonneg sample_text_def)
  then show ?thesis
    by (simp add: chunk_window_def length_sample_text)
qed

lemma strip_letters: "0 < n \<Longrightarrow> strip (replicate n CHR ''a'') = replicate n CHR ''a''"
  by (rule strip_id) (simp_all add: isspace_def)

lemma strip_sample_chunk_2:
  "strip (replicate 700 CHR ''a'' @ CHR ''.'' # replicate 299 CHR ''a'') =
     replicate 700 CHR ''a'' @ CHR ''.'' # replicate 299 CHR ''a''"
  by (rule strip_id) (simp_all add: isspace_def hd_append)

text \<open>
  C3. The claim: a window that does not reach the end of the text is cut at its last
  period or newline exactly when that break point lies past the window's midpoint; in
  particular, with \<open>chunk_size = 1000\<close> and \<open>overlap = 200\<close> every chunk of a text of 2500
  characters ends at a boundary found in the back half of its window, also the chunks
  that start after offset zero. On \<open>sample_text\<close> the second window starts at 800 and
  has its last period at offset 700, past the midpoint 500, and the chunk still is the
  whole window, ending in a letter: the code tests \<open>700 > 800 + 500\<close>.
\<close>

theorem C3_boundary_missed_after_first_chunk:
  "length sample_text = 2500
   \<and> rfind (py_slice sample_text 800 1800) CHR ''.'' = 700
   \<and> extract_text_chunks sample_text 1000 200 =
       Some [replicate 1000 CHR ''a'',
             replicate 700 CHR ''a'' @ CHR ''.'' # replicate 299 CHR ''a'',
             replicate 900 CHR ''a'',
             replicate 100 CHR ''a'']"
proof (intro conjI)
  show "length sample_text = 2500"
    by (rule length_sample_text)
  show "rfind (py_slice sample_text 800 1800) CHR ''.'' = 700"
    by (simp add: sample_slice_2 rfind_last_occurrence)
  have "chunk_loop sample_text 1000 200 3200 acc = Some acc" for acc
    by (subst chunk_loop.simps) (simp add: length_sample_text)
  then have "chunk_loop sample_text 1000 200 2400 acc = Some (acc @ [replicate 100 CHR ''a''])"
    for acc
    by (subst chunk_loop.simps) (simp add: length_sample_text sample_window_4 strip_letters)
  then have "chunk_loop sample_text 1000 200 1600 acc =
      Some (acc @ [replicate 900 CHR ''a'', replicate 100 CHR ''a''])" for acc
    by (subst chunk_loop.simps) (simp add: length_sample_text sample_window_3 strip_letters)
  then have "chunk_loop sample_text 1000 200 800 acc =
      Some (acc @ [replicate 700 CHR ''a'' @ CHR ''.'' # replicate 299 CHR ''a'',
                   replicate 900 CHR ''a'', replicate 100 CHR ''a''])" for acc
    by (subst chunk_loop.simps)
      (simp add: length_sample_text sample_window_2 strip_sample_chunk_2)
  then have "chunk_loop sample_text 1000 200 0 acc =
      Some (acc @ [replicate 1000 CHR ''a'',
                   replicate 700 CHR ''a'' @ CHR ''.'' # replicate 299 CHR ''a'',
                   replicate 900 CHR ''a'', replicate 100 CHR ''a''])" for acc
    by (subst chunk_loop.simps) (simp add: length_sample_text sample_window_1 strip_letters)
  then show "extract_text_chunks sample_text 1000 200 =
       Some [replicate 1000 CHR ''a'',
             replicate 700 CHR ''a'' @ CHR ''.'' # replicate 299 CHR ''a'',
             replicate 900 CHR ''a'',
             replicate 100 CHR ''a'']"
    by (simp add: extract_text_chunks_def)
qed

subsection \<open>Windows that tile the text\<close>

text \<open>
  When \<open>0 \<le> overlap < chunk_size\<close> and \<open>overlap \<le> chunk_size // 2 + 1\<close>, every pass moves
  the start forward, so the loop returns. The chunks are the stripped windows; each
  window after the first repeats the last \<open>overlap\<close> characters before it.
\<close>

lemma chunk_loop_windows:
  assumes "0 \<le> ov" and "ov < cs" and "ov \<le> cs div 2 + 1" and "0 \<le> st"
  shows "\<exists>ws. chunk_loop t cs ov st acc = Some (acc @ map strip ws)
    \<and> concat (map (drop (nat ov)) ws) = drop (nat (st + ov)) t
    \<and> list_all (\<lambda>w. w \<noteq> [] \<and> int (length w) \<le> cs) ws
    \<and> (st < int (length t) \<longrightarrow>
         ws \<noteq> [] \<and> take (nat ov) (hd ws) = take (nat ov) (drop (nat st) t))"
  using assms(4)
proof (induction "nat (int (length t) - st)" arbitrary: st acc rule: less_induct)
  case less
  show ?case
  proof (cases "st < int (length t)")
    case False
    then have "chunk_loop t cs ov st acc = Some (acc @ map strip [])"
      by (subst chunk_loop.simps) simp
    moreover from False assms(1) have "drop (nat (st + ov)) t = []" by simp
    ultimately show ?thesis using False by (intro exI [of _ "[]"]) simp
  next
    case True
    obtain w e where we: "chunk_window t cs st = (w, e)"
      by (cases "chunk_window t cs st")
    from chunk_window_progress [OF less.prems assms(2,3), of t] we
    have prog: "st + ov < e" by simp
    from less.prems assms(1,2) have "st < 0 \<or> 0 \<le> st + cs" by arith
    from chunk_window_end_le [OF this, of t] we less.prems assms(1,2)
    have ub: "e \<le> st + cs" by simp
    from chunk_window_fst [of t cs st] we have "w = py_slice t st e" by simp
    with less.prems prog assms(1)
    have w: "w = take (nat e - nat st) (drop (nat st) t)"
      by (simp add: py_slice_nonneg)
    have st': "0 \<le> e - ov" using prog less.prems by simp
    have "nat (int (length t) - (e - ov)) < nat (int (length t) - st)"
      using True prog by simp
    from less.hyps [OF this st', of "acc @ [strip w]"]
    obtain ws where ws:
      "chunk_loop t cs ov (e - ov) (acc @ [strip w]) = Some ((acc @ [strip w]) @ map strip ws)"
      "concat (map (drop (nat ov)) ws) = drop (nat (e - ov + ov)) t"
      "list_all (\<lambda>w. w \<noteq> [] \<and> int (length w) \<le> cs) ws"
      by blast
    have loop: "chunk_loop t cs ov st acc = Some (acc @ map strip (w # ws))"
      using True we ws(1) by (subst chunk_loop.simps) simp
    have nat_eq: "nat (st + ov) = nat st + nat ov"
      "nat e - nat st - nat ov + (nat st + nat ov) = nat e"
      using less.prems assms(1) prog by simp_all
    have "drop (nat ov) w = take (nat e - nat st - nat ov) (drop (nat st + nat ov) t)"
      by (simp add: w drop_take add.commute)
    then have "drop (nat ov) w @ drop (nat e) t = drop (nat st + nat ov) t"
      using append_take_drop_id [of "nat e - nat st - nat ov" "drop (nat st + nat ov) t"] nat_eq(2)
      by simp
    then have cat: "concat (map (drop (nat ov)) (w # ws)) = drop (nat (st + ov)) t"
      using ws(2) nat_eq(1) by simp
    have wne: "w \<noteq> []" using True less.prems prog assms(1) by (auto simp add: w)
    have wlen: "int (length w) \<le> cs" using ub less.prems prog assms(1) by (auto simp add: w)
    have hd: "take (nat ov) (hd (w # ws)) = take (nat ov) (drop (nat st) t)"
      using prog less.prems assms(1) by (auto simp add: w min_def)
    show ?thesis
      using loop cat wne wlen hd ws(3) by (intro exI [of _ "w # ws"]) simp
  qed
qed

text \<open>
  C4, as amended. The claim: with \<open>overlap = 0\<close> the concatenation of the returned
  chunks is the original text exactly, and with \<open>overlap > 0\<close> the non-overlapping
  portions of the chunks give the text minus leading and trailing whitespace only. What
  holds: for \<open>0 \<le> overlap < chunk_size\<close> with \<open>overlap \<le> chunk_size // 2 + 1\<close> the call
  returns, and the returned chunks are the stripped images of non-empty windows of at
  most \<open>chunk_size\<close> characters that tile the text: the first window, followed by every
  later window without its first \<open>overlap\<close> characters, is the text exactly; with
  \<open>overlap = 0\<close> the windows themselves concatenate to the text. Whitespace at either
  end of a window is absent from its chunk.
\<close>

theorem C4_windows_tile_text:
  assumes "0 \<le> ov" and "ov < cs" and "ov \<le> cs div 2 + 1"
  shows "\<exists>ws. extract_text_chunks t cs ov = Some (map strip ws)
      \<and> concat (take 1 ws @ map (drop (nat ov)) (drop 1 ws)) = t
      \<and> list_all (\<lambda>w. w \<noteq> [] \<and> int (length w) \<le> cs) ws
      \<and> (ov = 0 \<longrightarrow> concat ws = t)"
proof (cases "t = []")
  case True
  then show ?thesis
    by (intro exI [of _ "[]"]) (simp add: extract_text_chunks_def chunk_loop_empty)
next
  case False
  from chunk_loop_windows [OF assms, of 0 t "[]"] False
  obtain ws where ws: "chunk_loop t cs ov 0 [] = Some (map strip ws)"
    "concat (map (drop (nat ov)) ws) = drop (nat ov) t"
    "list_all (\<lambda>w. w \<noteq> [] \<and> int (length w) \<le> cs) ws"
    "ws \<noteq> []" "take (nat ov) (hd ws) = take (nat ov) t"
    by auto
  from ws(4) obtain w rest where eq: "ws = w # rest" by (cases ws) auto
  have "w @ concat (map (drop (nat ov)) rest) =
      take (nat ov) w @ drop (nat ov) w @ concat (map (drop (nat ov)) rest)"
    by simp
  also have "\<dots> = take (nat ov) t @ drop (nat ov) t"
    using ws(2,5) eq by simp
  finally have "concat (take 1 ws @ map (drop (nat ov)) (drop 1 ws)) = t"
    using eq by simp
  moreover have "ov = 0 \<longrightarrow> concat ws = t" using ws(2) by auto
  ultimately show ?thesis
    using ws(1,3) by (intro exI [of _ ws]) (simp add: extract_text_chunks_def)
qed

theorem C4_windows_tile_text_witness:
  "(0::int) \<le> 1 \<and> (1::int) < 4 \<and> (1::int) \<le> 4 div 2 + 1
   \<and> (\<exists>ws. extract_text_chunks ''ab. cdefghi'' 4 1 = Some (map strip ws)
        \<and> concat (take 1 ws @ map (drop (nat 1)) (drop 1 ws)) = ''ab. cdefghi''
        \<and> list_all (\<lambda>w. w \<noteq> [] \<and> int (length w) \<le> 4) ws)
   \<and> (\<exists>ws. extract_text_chunks ''ab. cdefghi'' 4 0 = Some (map strip ws)
        \<and> concat ws = ''ab. cdefghi'')"
proof -
  have a: "(0::int) \<le> 1" "(1::int) < 4" "(1::int) \<le> 4 div 2 + 1" by simp_all
  have b: "(0::int) \<le> 0" "(0::int) < 4" "(0::int) \<le> 4 div 2 + 1" by simp_all
  from C4_windows_tile_text [OF a, of "''ab. cdefghi''"]
    C4_windows_tile_text [OF b, of "''ab. cdefghi''"]
  show ?thesis by (simp only: a simp_thms) blast
qed

text \<open>
  The claim as stated fails with \<open>overlap = 0\<close>: the chunk of the text \<open>" a"\<close> is \<open>"a"\<close>.
\<close>

theorem C4_chunks_lose_whitespace:
  "extract_text_chunks '' a'' 10 0 = Some [''a''] \<and> concat [''a''] \<noteq> '' a''"
  by code_simp

section \<open>The classifier\<close>

lemma lower_I130: "lower ''I-130'' = ''i-130''"
  by code_simp

lemma classify_I130:
  assumes "sublist ''I-130'' t"
  shows "classify_document t = ''I-130''"
proof -
  from sublist_lower [OF assms] have "sublist ''i-130'' (lower t)"
    by (simp only: lower_I130)
  then show ?thesis
    by (simp add: classify_document_def form_patterns_def any_pattern_in_def)
qed

lemma classify_forms_first:
  assumes "i < length reg" and "any_pattern_in (snd (reg ! i)) low"
    and "\<forall>j<i. \<not> any_pattern_in (snd (reg ! j)) low"
  shows "classify_forms reg low = Some (fst (reg ! i))"
  using assms
proof (induction reg arbitrary: i)
  case Nil
  then show ?case by simp
next
  case (Cons entry reg)
  obtain form_type patterns where e: "entry = (form_type, patterns)" by (cases entry)
  show ?case
  proof (cases i)
    case 0
    with Cons.prems e show ?thesis by simp
  next
    case (Suc k)
    from Cons.prems(3) Suc have "\<not> any_pattern_in (snd ((entry # reg) ! 0)) low" by blast
    then have no: "\<not> any_pattern_in patterns low"
      by (simp add: e)
    have "\<forall>j<k. \<not> any_pattern_in (snd (reg ! j)) low"
    proof (intro allI impI)
      fix j assume "j < k"
      then have "Suc j < i" using Suc by simp
      with Cons.prems(3) have "\<not> any_pattern_in (snd ((entry # reg) ! Suc j)) low" by blast
      then show "\<not> any_pattern_in (snd (reg ! j)) low" by simp
    qed
    with Cons.IH [of k] Cons.prems Suc have "classify_forms reg low = Some (fst (reg ! k))"
      by simp
    with no e Suc show ?thesis by simp
  qed
qed

lemma classify_forms_none:
  "(\<forall>i<length reg. \<not> any_pattern_in (snd (reg ! i)) low) \<Longrightarrow> classify_forms reg low = None"
proof (induction reg)
  case Nil
  then show ?case by simp
next
  case (Cons entry reg)
  obtain form_type patterns where e: "entry = (form_type, patterns)" by (cases entry)
  from Cons.prems have "\<not> any_pattern_in (snd ((entry # reg) ! 0)) low" by blast
  then have no: "\<not> any_pattern_in patterns low"
    by (simp add: e)
  have "\<forall>i<length reg. \<not> any_pattern_in (snd (reg ! i)) low"
  proof (intro allI impI)
    fix i assume "i < length reg"
    with Cons.prems have "\<not> any_pattern_in (snd ((entry # reg) ! Suc i)) low" by auto
    then show "\<not> any_pattern_in (snd (reg ! i)) low" by simp
  qed
  with Cons.IH no e show ?case by simp
qed

lemma classify_forms_label:
  "classify_forms reg low = Some l \<Longrightarrow> l \<in> fst ` set reg"
  by (induction reg low rule: classify_forms.induct) (auto split: if_splits)

lemma classify_document_label:
  "classify_document t \<in> fst ` set form_patterns \<union> generic_labels"
proof (cases "classify_forms form_patterns (lower t)")
  case None
  then show ?thesis by (simp add: classify_document_def generic_labels_def Let_def)
next
  case (Some l)
  with classify_forms_label [OF Some] show ?thesis
    by (simp add: classify_document_def)
qed

text \<open>
  C6. The classifier returns a label for every text: a key of the registry, a generic
  label or the unknown sentinel. It is a function of the text alone. It walks the
  registry in its fixed order and returns the label of the first entry one of whose
  patterns occurs in the lower-cased text; \<open>I-130\<close> is the first entry, so a text that
  contains both \<open>I-130\<close> and \<open>I-485\<close> is classified \<open>I-130\<close>. When no entry and no
  generic check matches, the result is \<open>Unknown Document\<close>.
\<close>

theorem C6_classifier_first_match:
  "(sublist ''I-130'' t \<and> sublist ''I-485'' t \<longrightarrow> classify_document t = ''I-130'')
   \<and> (\<forall>i<length form_patterns.
         any_pattern_in (snd (form_patterns ! i)) (lower t)
         \<and> (\<forall>j<i. \<not> any_pattern_in (snd (form_patterns ! j)) (lower t))
         \<longrightarrow> classify_document t = fst (form_patterns ! i))
   \<and> ((\<forall>i<length form_patterns. \<not> any_pattern_in (snd (form_patterns ! i)) (lower t))
        \<and> \<not> sublist ''passport'' (lower t) \<and> \<not> sublist ''birth certificate'' (lower t)
        \<and> \<not> sublist ''marriage certificate'' (lower t)
        \<and> \<not> sublist ''divorce decree'' (lower t)
        \<and> \<not> (sublist ''employment'' (lower t) \<and> sublist ''authorization'' (lower t))
        \<longrightarrow> classify_document t = ''Unknown Document'')
   \<and> classify_document t \<in> fst ` set form_patterns \<union> generic_labels
   \<and> map fst form_patterns =
       [''I-130'', ''I-485'', ''I-765'', ''I-821D'', ''I-90'', ''N-400'', ''I-864'', ''I-693'',
        ''G-1145'', ''I-131'']"
proof (intro conjI)
  show "sublist ''I-130'' t \<and> sublist ''I-485'' t \<longrightarrow> classify_document t = ''I-130''"
    by (simp add: classify_I130)
  show "\<forall>i<length form_patterns.
         any_pattern_in (snd (form_patterns ! i)) (lower t)
         \<and> (\<forall>j<i. \<not> any_pattern_in (snd (form_patterns ! j)) (lower t))
         \<longrightarrow> classify_document t = fst (form_patterns ! i)"
    by (simp add: classify_document_def classify_forms_first)
  show "(\<forall>i<length form_patterns. \<not> any_pattern_in (snd (form_patterns ! i)) (lower t))
        \<and> \<not> sublist ''passport'' (lower t) \<and> \<not> sublist ''birth certificate'' (lower t)
        \<and> \<not> sublist ''marriage certificate'' (lower t)
        \<and> \<not> sublist ''divorce decree'' (lower t)
        \<and> \<not> (sublist ''employment'' (lower t) \<and> sublist ''authorization'' (lower t))
        \<longrightarrow> classify_document t = ''Unknown Document''"
    by (auto simp add: classify_document_def classify_forms_none Let_def)
  show "classify_document t \<in> fst ` set form_patterns \<union> generic_labels"
    by (rule classify_document_label)
  show "map fst form_patterns =
       [''I-130'', ''I-485'', ''I-765'', ''I-821D'', ''I-90'', ''N-400'', ''I-864'', ''I-693'',
        ''G-1145'', ''I-131'']"
    by (simp add: form_patterns_def)
qed

theorem C6_classifier_first_match_witness:
  "sublist ''I-130'' ''Forms I-485 and I-130'' \<and> sublist ''I-485'' ''Forms I-485 and I-130''
   \<and> classify_document ''Forms I-485 and I-130'' = ''I-130''
   \<and> classify_document ''a letter'' = ''Unknown Document''"
proof -
  have a: "sublist ''I-130'' ''Forms I-485 and I-130''" by code_simp
  have b: "sublist ''I-485'' ''Forms I-485 and I-130''" by code_simp
  have c: "(\<forall>i<length form_patterns.
          \<not> any_pattern_in (snd (form_patterns ! i)) (lower ''a letter''))
        \<and> \<not> sublist ''passport'' (lower ''a letter'')
        \<and> \<not> sublist ''birth certificate'' (lower ''a letter'')
        \<and> \<not> sublist ''marriage certificate'' (lower ''a letter'')
        \<and> \<not> sublist ''divorce decree'' (lower ''a letter'')
        \<and> \<not> (sublist ''employment'' (lower ''a letter'')
             \<and> sublist ''authorization'' (lower ''a letter''))"
    by code_simp
  from a b c C6_classifier_first_match [of "''Forms I-485 and I-130''"]
    C6_classifier_first_match [of "''a letter''"]
  show ?thesis by blast
qed

section \<open>The confidence scorer\<close>

lemma calculate_confidence_spec: "calculate_confidence t fs ts = spec_confidence t fs ts"
  by (simp add: calculate_confidence_def spec_confidence_def Let_def)

text \<open>
  C5, as amended. The claim: the score is the sum of 0.3 for a trimmed text of more than
  100 characters, 0.2 for at least one form field, 0.2 for at least one table and 0.3 for
  a classification other than unknown, clamped to 1.0; so it lies in \<open>[0, 1]\<close>, is 1.0
  when all four signals hold, and is 0.6 for a text containing \<open>I-130\<close> with no fields
  and no tables. All of it holds but the last: the score is 0.6 for such a text when its
  trimmed length exceeds 100 characters. The empty text with no fields and no tables
  scores 0.
\<close>

theorem C5_confidence_additive:
  "calculate_confidence t fs ts = spec_confidence t fs ts
   \<and> 0 \<le> calculate_confidence t fs ts \<and> calculate_confidence t fs ts \<le> 1
   \<and> (length (strip t) > 100 \<and> fs \<noteq> [] \<and> ts \<noteq> []
        \<and> classify_document t \<noteq> ''Unknown Document''
        \<longrightarrow> calculate_confidence t fs ts = 1)
   \<and> (sublist ''I-130'' t \<and> length (strip t) > 100
        \<longrightarrow> calculate_confidence t [] [] = 6 / 10)
   \<and> calculate_confidence [] [] [] = 0"
proof (intro conjI)
  show "calculate_confidence t fs ts = spec_confidence t fs ts"
    by (rule calculate_confidence_spec)
  show "0 \<le> calculate_confidence t fs ts" "calculate_confidence t fs ts \<le> 1"
    by (simp_all add: calculate_confidence_def Let_def)
  show "length (strip t) > 100 \<and> fs \<noteq> [] \<and> ts \<noteq> []
        \<and> classify_document t \<noteq> ''Unknown Document''
        \<longrightarrow> calculate_confidence t fs ts = 1"
    by (simp add: calculate_confidence_def Let_def)
  show "sublist ''I-130'' t \<and> length (strip t) > 100
        \<longrightarrow> calculate_confidence t [] [] = 6 / 10"
    by (simp add: calculate_confidence_def Let_def classify_I130)
  have "classify_document [] = ''Unknown Document''" by code_simp
  then show "calculate_confidence [] [] [] = 0"
    by (simp add: calculate_confidence_def Let_def strip_def)
qed

theorem C5_confidence_additive_witness:
  "sublist ''I-130'' sample_long_text \<and> length (strip sample_long_text) > 100
   \<and> calculate_confidence sample_long_text [] [] = 6 / 10
   \<and> sample_fields \<noteq> [] \<and> classify_document sample_long_text \<noteq> ''Unknown Document''
   \<and> calculate_confidence sample_long_text sample_fields [sample_table] = 1"
proof -
  have a: "sublist ''I-130'' sample_long_text"
    using sublist_appendI [of "''I-130''" "''Form ''" "replicate 100 CHR ''x''"]
    by (simp add: sample_long_text_def)
  have "strip sample_long_text = sample_long_text"
    by (rule strip_id) (simp_all add: sample_long_text_def isspace_def)
  then have b: "length (strip sample_long_text) > 100"
    by (simp add: sample_long_text_def)
  have c: "sample_fields \<noteq> []" by (simp add: sample_fields_def)
  have d: "classify_document sample_long_text \<noteq> ''Unknown Document''"
    by (simp add: classify_I130 [OF a])
  from a b c d C5_confidence_additive [of sample_long_text "[]" "[]"]
    C5_confidence_additive [of sample_long_text sample_fields "[sample_table]"]
  show ?thesis by simp
qed

text \<open>
  The claim as stated fails on the text \<open>I-130\<close> itself: it is classified, but too short
  for the text signal, and scores 0.3.
\<close>

theorem C5_short_text_scores_less:
  "sublist ''I-130'' ''I-130'' \<and> calculate_confidence ''I-130'' [] [] = 3 / 10
   \<and> calculate_confidence ''I-130'' [] [] \<noteq> 6 / 10"
proof -
  have "strip ''I-130'' = ''I-130''" by code_simp
  then show ?thesis
    by (simp add: calculate_confidence_def Let_def classify_I130)
qed

section \<open>The extracted text\<close>

lemma fold_extract_text:
  "fold (\<lambda>page (full_text, pages_text).
           let page_text = get_text page
           in (full_text @ page_text @ [CHR 0x0A], pages_text @ [page_text]))
        doc (ft, pt) =
     (ft @ concat (map (\<lambda>p. get_text p @ [CHR 0x0A]) doc), pt @ map get_text doc)"
  by (induction doc arbitrary: ft pt) (simp_all add: Let_def)

lemma concat_py_join: "ps \<noteq> [] \<Longrightarrow> concat (map (\<lambda>p. p @ sep) ps) = py_join sep ps @ sep"
  by (induction sep ps rule: py_join.induct) simp_all

text \<open>
  C9, as amended. The claim: the full text is the per-page texts, in order, joined with
  a single delimiter, with only trailing whitespace trimmed. What holds: the full text is
  the per-page texts joined with one newline, with leading and trailing whitespace
  trimmed; the per-page list holds the page texts in order.
\<close>

theorem C9_full_text_stripped_join:
  "extract_text doc = (strip (py_join [CHR 0x0A] (map get_text doc)), map get_text doc)"
proof (cases "doc = []")
  case True
  then show ?thesis by (simp add: extract_text_def strip_def)
next
  case False
  then have "concat (map (\<lambda>p. get_text p @ [CHR 0x0A]) doc) =
      py_join [CHR 0x0A] (map get_text doc) @ [CHR 0x0A]"
    using concat_py_join [of "map get_text doc" "[CHR 0x0A]"] by (simp add: comp_def)
  then show ?thesis
    by (simp add: extract_text_def fold_extract_text strip_snoc_newline)
qed

text \<open>
  The claim as stated fails on a single page whose text is \<open>" a"\<close>: the full text is
  \<open>"a"\<close>, the leading blank trimmed as well.
\<close>

theorem C9_leading_whitespace_trimmed:
  "fst (extract_text [\<lparr>get_text = '' a''\<rparr>]) = ''a''
   \<and> rstrip (py_join [CHR 0x0A] (map get_text [\<lparr>get_text = '' a''\<rparr>])) = '' a''"
  by code_simp

section \<open>The LLM service\<close>




text \<open>
  C8. For every parsed document, summary and key-information map, the overall
  confidence of the analysis is 0.4 times the document's confidence, plus 0.2 if the
  summary is longer than 200 characters, plus 0.2 if the map has more than 3 entries,
  plus 0.1 if the document has form fields, plus 0.1 if its type is not the unknown
  sentinel, clamped to at most 1.0.
\<close>

theorem C8_analysis_confidence:
  "calculate_analysis_confidence doc summary (JObject kvs) =
     Inr (spec_analysis_confidence (confidence_score doc) (length summary) (length kvs)
            (form_fields doc \<noteq> []) (document_type doc \<noteq> ''Unknown Document''))"
  by (cases kvs)
    (auto simp add: calculate_analysis_confidence_def spec_analysis_confidence_def Let_def
      min_def)

subsection \<open>Per-field analysis\<close>

lemma call_llm_log:
  "call_llm self remote p n calls = (Inr r, calls') \<Longrightarrow> length calls' = Suc (length calls)"
  by (auto simp add: call_llm_def call_openai_def call_anthropic_def split: if_splits)

lemma analyze_fields_loop_result:
  assumes "analyze_fields_loop self remote doc fs acc calls = (Inr recs, calls')"
  shows "map guidance_key recs = map guidance_key acc @ map field_key fs
    \<and> length calls' = length calls + length fs"
  using assms
proof (induction fs arbitrary: acc calls)
  case Nil
  then show ?case by simp
next
  case (Cons f fs)
  obtain r c where rc: "call_llm self remote (form_field_prompt doc f) 300 calls = (r, c)"
    by (cases "call_llm self remote (form_field_prompt doc f) 300 calls")
  show ?case
  proof (cases r)
    case (Inl e)
    with Cons.prems rc show ?thesis by simp
  next
    case (Inr response)
    with Cons.prems rc have "analyze_fields_loop self remote doc fs
        (acc @ [\<lparr>guidance_field_name = field_name f, guidance_field_type = field_type f,
                 guidance = content response, guidance_page_number = page_number f\<rparr>]) c
        = (Inr recs, calls')"
      by simp
    from Cons.IH [OF this] call_llm_log [of self remote _ 300 calls response c] rc Inr
    show ?thesis by (simp add: guidance_key_def field_key_def)
  qed
qed

lemma call_llm_succeeds:
  assumes "service_provider self \<noteq> LOCAL" and "\<forall>h c. \<exists>r. remote h c = Inr r"
  shows "\<exists>r calls'. call_llm self remote p n calls = (Inr r, calls')"
proof -
  from assms(2) obtain a b where "remote calls (service_provider self, p, n) = Inr (a, b)"
    by (metis surj_pair)
  with assms(1) show ?thesis
    by (cases "service_provider self")
      (simp_all add: call_llm_def call_openai_def call_anthropic_def)
qed

lemma analyze_fields_loop_succeeds:
  assumes "service_provider self \<noteq> LOCAL" and "\<forall>h c. \<exists>r. remote h c = Inr r"
  shows "\<exists>recs calls'. analyze_fields_loop self remote doc fs acc calls = (Inr recs, calls')"
proof (induction fs arbitrary: acc calls)
  case Nil
  show ?case by simp
next
  case (Cons f fs)
  from call_llm_succeeds [OF assms]
  obtain r c where "call_llm self remote (form_field_prompt doc f) 300 calls = (Inr r, c)"
    by blast
  with Cons.IH show ?case by simp
qed

text \<open>
  C10. The per-field analysis of a document without form fields returns the empty list
  and issues no provider call. Otherwise it issues one call per field, and the list it
  returns holds one guidance record per form field, in the order of the document's
  form-field list, each with that field's name, type and page number. It returns such a
  list whenever the provider is a supported one and no call fails; a failing call
  leaves the analysis as its exception.
\<close>

theorem C10_one_guidance_per_field:
  "(form_fields doc = [] \<longrightarrow> analyze_form_fields self remote doc calls = (Inr [], calls))
   \<and> (analyze_form_fields self remote doc calls = (Inr recs, calls')
       \<longrightarrow> map guidance_key recs = map field_key (form_fields doc)
         \<and> length calls' = length calls + length (form_fields doc))
   \<and> (service_provider self \<noteq> LOCAL \<and> (\<forall>h c. \<exists>r. remote h c = Inr r)
       \<longrightarrow> (\<exists>recs calls'. analyze_form_fields self remote doc calls = (Inr recs, calls')))"
proof (intro conjI impI)
  assume "form_fields doc = []"
  then show "analyze_form_fields self remote doc calls = (Inr [], calls)"
    by (simp add: analyze_form_fields_def)
next
  assume a: "analyze_form_fields self remote doc calls = (Inr recs, calls')"
  show "map guidance_key recs = map field_key (form_fields doc)"
    "length calls' = length calls + length (form_fields doc)"
    using a analyze_fields_loop_result [of self remote doc "form_fields doc" "[]" calls recs calls']
    by (auto simp add: analyze_form_fields_def split: if_splits)
next
  assume "service_provider self \<noteq> LOCAL \<and> (\<forall>h c. \<exists>r. remote h c = Inr r)"
  then show "\<exists>recs calls'. analyze_form_fields self remote doc calls = (Inr recs, calls')"
    using analyze_fields_loop_succeeds [of self remote doc "form_fields doc" "[]" calls]
    by (simp add: analyze_form_fields_def)
qed

theorem C10_one_guidance_per_field_witness:
  "form_fields (sample_doc\<lparr>form_fields := []\<rparr>) = []
   \<and> analyze_form_fields sample_service sample_remote (sample_doc\<lparr>form_fields := []\<rparr>) []
       = (Inr [], [])
   \<and> analyze_form_fields sample_service sample_remote sample_doc [] =
       (Inr sample_guidance,
        [(OPENAI, form_field_prompt sample_doc (sample_fields ! 0), 300),
         (OPENAI, form_field_prompt sample_doc (sample_fields ! 1), 300)])
   \<and> map guidance_key sample_guidance = map field_key (form_fields sample_doc)
   \<and> length [(OPENAI, form_field_prompt sample_doc (sample_fields ! 0), 300),
              (OPENAI, form_field_prompt sample_doc (sample_fields ! 1), 300)]
       = length ([] :: call list) + length (form_fields sample_doc)"
proof -
  have a: "form_fields (sample_doc\<lparr>form_fields := []\<rparr>) = []" by simp
  have b: "analyze_form_fields sample_service sample_remote sample_doc [] =
       (Inr sample_guidance,
        [(OPENAI, form_field_prompt sample_doc (sample_fields ! 0), 300),
         (OPENAI, form_field_prompt sample_doc (sample_fields ! 1), 300)])"
    by (simp add: analyze_form_fields_def sample_doc_def sample_fields_def sample_guidance_def
        call_llm_def call_openai_def sample_service_def sample_remote_def)
  from a b
    C10_one_guidance_per_field
      [where doc = "sample_doc\<lparr>form_fields := []\<rparr>" and self = sample_service
        and remote = sample_remote and calls = "[]"]
    C10_one_guidance_per_field
      [where doc = sample_doc and self = sample_service and remote = sample_remote
        and calls = "[]" and recs = sample_guidance
        and calls' = "[(OPENAI, form_field_prompt sample_doc (sample_fields ! 0), 300),
                       (OPENAI, form_field_prompt sample_doc (sample_fields ! 1), 300)]"]
  show ?thesis by simp
qed

end
